theory Spec2Isabelle
  imports Main "HOL-Library.AList"
begin

section \<open>The installed-package index\<close>

text \<open>
  Exceptions of \<^verbatim>\<open>pipremove_v2.py\<close> as values. \<open>PackageNotFoundError\<close> is the exception of
  \<^verbatim>\<open>importlib.metadata\<close>; \<open>PackageNotFound\<close> is the class the module defines itself
  (lines 88-93), which no statement of the module raises.
\<close>

datatype error =
    ValueError string
  | RuntimeError string
  | KeyError string
  | PackageNotFoundError string
  | PackageNotFound string

text \<open>
  A distribution as the resolver reads it: its \<open>name\<close>, and \<open>requires\<close>, which is
  \<open>None\<close> or the names of its requirements (the parse of each requirement string by
  \<^verbatim>\<open>packaging\<close> is outside the module; only the \<open>.name\<close> of the result is used).
\<close>

record Distribution =
  name :: string
  requires :: "string list option"

text \<open>
  What \<^verbatim>\<open>importlib.metadata\<close> answers: \<open>distributions\<close> enumerates the installed
  distributions, \<open>distribution n\<close> is what a search by the non-empty name \<open>n\<close> finds.
\<close>

record environment =
  distributions :: "Distribution list"
  distribution :: "string \<Rightarrow> Distribution option"

text \<open>
  Python dictionaries are association lists in insertion order: \<open>AList.update\<close> replaces
  the value of a key in place and appends a new key at the end, as \<^verbatim>\<open>d[k] = v\<close> does.
  Python sets of strings are lists without repetition; the order in which a set is iterated
  is an implementation detail of Python, and the statements below only speak about the
  \<open>set\<close> of such a list.
\<close>

definition set_add :: "'a \<Rightarrow> 'a list \<Rightarrow> 'a list" where
  "set_add x xs = (if x \<in> set xs then xs else xs @ [x])"

definition dict_get :: "'k \<Rightarrow> 'v \<Rightarrow> ('k \<times> 'v) list \<Rightarrow> 'v" where
  "dict_get k dflt d = (case map_of d k of Some v \<Rightarrow> v | None \<Rightarrow> dflt)"

definition dict_setdefault :: "'k \<Rightarrow> 'v \<Rightarrow> ('k \<times> 'v) list \<Rightarrow> 'v \<times> ('k \<times> 'v) list" where
  "dict_setdefault k dflt d =
     (case map_of d k of Some v \<Rightarrow> (v, d) | None \<Rightarrow> (dflt, AList.update k dflt d))"

definition WHITELIST :: "string set" where
  "WHITELIST = {''pip'', ''setuptools'', ''wheel'', ''more-iterools'', ''packaging'',
                ''attrs'', ''click''}"

text \<open>\<open>{d.name: d for d in dists}\<close>, the snapshot kept in the global \<open>__dists\<close>.\<close>

definition distributions_as_dict :: "environment \<Rightarrow> (string \<times> Distribution) list" where
  "distributions_as_dict env =
     foldl (\<lambda>m d. AList.update (name d) d m) [] (distributions env)"

text \<open>
  \<open>importlib.metadata.distribution(name)\<close>, the library call of line 133: it raises
  \<open>ValueError\<close> for the empty name before it searches, and \<open>PackageNotFoundError\<close> when
  the search finds nothing.
\<close>

definition name_required_message :: string where
  "name_required_message = ''A distribution name is required.''"

definition importlib_distribution :: "environment \<Rightarrow> string \<Rightarrow> error + Distribution" where
  "importlib_distribution env nm =
     (if nm = [] then Inl (ValueError name_required_message)
      else (case distribution env nm of
              None \<Rightarrow> Inl (PackageNotFoundError nm)
            | Some d \<Rightarrow> Inr d))"

text \<open>
  \<open>get_distribution\<close> with the global memo \<open>__alias_to_names\<close> passed in and returned.
  A memoised alias is looked up in the snapshot with \<open>dists[name]\<close>, whose \<open>KeyError\<close> is
  raised inside the handler and so leaves the function.
\<close>

type_synonym alias_to_names = "(string \<times> string) list"

definition get_distribution ::
  "environment \<Rightarrow> alias_to_names \<Rightarrow> string \<Rightarrow> error + (Distribution \<times> alias_to_names)" where
  "get_distribution env aliases nm =
     (case map_of (distributions_as_dict env) nm of
        Some d \<Rightarrow> Inr (d, aliases)
      | None \<Rightarrow>
          (case map_of aliases nm of
             None \<Rightarrow>
               (case importlib_distribution env nm of
                  Inl e \<Rightarrow> Inl e
                | Inr d \<Rightarrow> Inr (d, AList.update nm (name d) aliases))
           | Some nm' \<Rightarrow>
               (case map_of (distributions_as_dict env) nm' of
                  None \<Rightarrow> Inl (KeyError nm')
                | Some d \<Rightarrow> Inr (d, aliases))))"

definition does_pkg_exists ::
  "environment \<Rightarrow> alias_to_names \<Rightarrow> string \<Rightarrow> error + (bool \<times> alias_to_names)" where
  "does_pkg_exists env aliases pkg =
     (case get_distribution env aliases pkg of
        Inr (d, aliases') \<Rightarrow> Inr (True, aliases')
      | Inl (PackageNotFoundError n) \<Rightarrow> Inr (False, aliases)
      | Inl e \<Rightarrow> Inl e)"

definition get_requirements :: "Distribution \<Rightarrow> string list" where
  "get_requirements dist = (case requires dist of None \<Rightarrow> [] | Some rs \<Rightarrow> rs)"

section \<open>The resolver\<close>

record DependencyData =
  target :: string
  whitelisted :: "(string \<times> string) list"
  safe_to_removed :: "(string \<times> string list) list"
  package_depenencies_required_by :: "(string \<times> (string \<times> string list) list) list"
  this_requires_by :: "string list"
  never_installed :: "(string \<times> string) list"
  analyzed_packages :: "string list"

definition new_DependencyData :: "string \<Rightarrow> DependencyData" where
  "new_DependencyData t =
     \<lparr>target = t, whitelisted = [], safe_to_removed = [],
      package_depenencies_required_by = [], this_requires_by = [],
      never_installed = [], analyzed_packages = []\<rparr>"

text \<open>The state of a run: the resolver's \<open>DependencyData\<close> and the global alias memo.\<close>

type_synonym state = "DependencyData \<times> alias_to_names"

text \<open>\<open>PackageDependencyUninstalltionResolver.__init__\<close>; its message is an f-string.\<close>

definition not_found_message :: "string \<Rightarrow> string" where
  "not_found_message t = ''Package '' @ [CHR 0x27] @ t @ [CHR 0x27] @ '' not found''"

definition resolver_init ::
  "environment \<Rightarrow> alias_to_names \<Rightarrow> string \<Rightarrow> error + state" where
  "resolver_init env aliases t =
     (case does_pkg_exists env aliases t of
        Inl e \<Rightarrow> Inl e
      | Inr (ex, aliases') \<Rightarrow>
          if \<not> ex then Inl (ValueError (not_found_message t))
          else Inr (new_DependencyData t, aliases'))"

text \<open>Lines 224-227: the requirement names of every installed distribution.\<close>

definition package_to_requirements :: "environment \<Rightarrow> (string \<times> string list) list" where
  "package_to_requirements env =
     map (\<lambda>(modname, dist). (modname, get_requirements dist)) (distributions_as_dict env)"

text \<open>Lines 232-239: the requirements of \<open>package\<close>, under its canonical name if need be.\<close>

definition pull_requirements ::
  "environment \<Rightarrow> alias_to_names \<Rightarrow> string \<Rightarrow> error + (string \<times> string list \<times> alias_to_names)" where
  "pull_requirements env aliases package =
     (case map_of (package_to_requirements env) package of
        Some reqs \<Rightarrow> Inr (package, reqs, aliases)
      | None \<Rightarrow>
          (case get_distribution env aliases package of
             Inl e \<Rightarrow> Inl e
           | Inr (d, aliases') \<Rightarrow>
               (case map_of (package_to_requirements env) (name d) of
                  Some reqs \<Rightarrow> Inr (name d, reqs, aliases')
                | None \<Rightarrow> Inl (RuntimeError ''we fail again''))))"

text \<open>
  Lines 247-254: the loop over the requirements. It carries \<open>never_installed\<close>,
  \<open>whitelisted\<close>, \<open>vaild_requirements\<close> and the alias memo.
\<close>

fun sort_requirements ::
  "environment \<Rightarrow> string \<Rightarrow> string list \<Rightarrow>
   (string \<times> string) list \<times> (string \<times> string) list \<times> string list \<times> alias_to_names \<Rightarrow>
   error + ((string \<times> string) list \<times> (string \<times> string) list \<times> string list \<times> alias_to_names)"
where
  "sort_requirements env package [] acc = Inr acc"
| "sort_requirements env package (entry # rest) (never, white, vaild, aliases) =
     (case does_pkg_exists env aliases entry of
        Inl e \<Rightarrow> Inl e
      | Inr (ex, aliases') \<Rightarrow>
          if \<not> ex then
            sort_requirements env package rest
              (set_add (package, entry) never, white, vaild, aliases')
          else if entry \<in> WHITELIST then
            sort_requirements env package rest
              (never, set_add (package, entry) white, vaild, aliases')
          else
            sort_requirements env package rest
              (never, white, set_add entry vaild, aliases'))"

text \<open>Lines 259-266, run when \<open>package\<close> is the target.\<close>

definition scan_this_requires_by ::
  "(string \<times> string list) list \<Rightarrow> string \<Rightarrow> string list \<Rightarrow> string list" where
  "scan_this_requires_by p2r package trb =
     fold (\<lambda>(package_to_check, requirements) acc.
             if package \<in> set requirements \<and> package_to_check \<noteq> package
                \<and> package_to_check \<notin> WHITELIST
             then set_add package_to_check acc else acc) p2r trb"

text \<open>
  Lines 268-281. \<open>required\<close> is the dictionary \<open>package_depenencies_required_by[package]\<close>,
  the object that \<open>setdefault\<close> returned on line 245;
  \<open>note_user\<close> is \<open>.setdefault(depenency, set()).add(package_to_check)\<close>.
\<close>

definition note_user ::
  "string \<Rightarrow> string \<Rightarrow> (string \<times> string list) list \<Rightarrow> (string \<times> string list) list" where
  "note_user depenency package_to_check required =
     (case dict_setdefault depenency [] required of
        (users, required') \<Rightarrow> AList.update depenency (set_add package_to_check users) required')"

definition scan_users ::
  "(string \<times> string list) list \<Rightarrow> string \<Rightarrow> string \<Rightarrow> string list \<Rightarrow> string \<Rightarrow>
   (string \<times> string list) list \<Rightarrow> (string \<times> string list) list" where
  "scan_users p2r package tgt vaild depenency required =
     fold (\<lambda>(package_to_check, requirements) acc.
             if depenency \<in> set requirements \<and> package_to_check \<noteq> package
                \<and> package_to_check \<notin> set vaild \<and> package_to_check \<notin> WHITELIST
                \<and> package_to_check \<noteq> tgt
             then note_user depenency package_to_check acc else acc) p2r required"

definition scan_required_by ::
  "(string \<times> string list) list \<Rightarrow> string \<Rightarrow> string \<Rightarrow> string list \<Rightarrow>
   (string \<times> string list) list \<Rightarrow> (string \<times> string list) list" where
  "scan_required_by p2r package tgt vaild required =
     fold (scan_users p2r package tgt vaild) vaild required"

text \<open>\<open>_analyze_package_dependencies\<close>, lines 214-292.\<close>

definition analyze_package_dependencies :: "environment \<Rightarrow> string \<Rightarrow> state \<Rightarrow> error + state" where
  "analyze_package_dependencies env package st =
     (case st of (dd, aliases) \<Rightarrow>
        if package \<in> WHITELIST \<or> package \<in> set (analyzed_packages dd) then Inr (dd, aliases)
        else
          (case pull_requirements env aliases package of
             Inl e \<Rightarrow> Inl e
           | Inr (package', requirements, aliases1) \<Rightarrow>
               (case dict_setdefault package' [] (safe_to_removed dd) of
                  (_, safe1) \<Rightarrow>
               (case dict_setdefault package' [] (package_depenencies_required_by dd) of
                  (required, required_by1) \<Rightarrow>
               (case sort_requirements env package' requirements
                       (never_installed dd, whitelisted dd, [], aliases1) of
                  Inl e \<Rightarrow> Inl e
                | Inr (never, white, vaild, aliases2) \<Rightarrow>
                    let p2r = package_to_requirements env;
                        trb = (if package' = target dd
                               then scan_this_requires_by p2r package' (this_requires_by dd)
                               else this_requires_by dd);
                        required' = scan_required_by p2r package' (target dd) vaild required;
                        safe = filter (\<lambda>d. d \<notin> fst ` set required') vaild
                    in Inr (dd\<lparr>whitelisted := white,
                                safe_to_removed := AList.update package' safe safe1,
                                package_depenencies_required_by :=
                                  AList.update package' required' required_by1,
                                this_requires_by := trb,
                                never_installed := never,
                                analyzed_packages := set_add package' (analyzed_packages dd)\<rparr>,
                            aliases2))))))"

text \<open>The loop of lines 304-305.\<close>

fun analyze_each :: "environment \<Rightarrow> string list \<Rightarrow> state \<Rightarrow> error + state" where
  "analyze_each env [] st = Inr st"
| "analyze_each env (t # ts) st =
     (case analyze_package_dependencies env t st of
        Inl e \<Rightarrow> Inl e
      | Inr st' \<Rightarrow> analyze_each env ts st')"

text \<open>
  Lines 307-314. The outer loop runs over a copy of \<open>this_requires_by\<close>; the inner loop
  calls \<open>set.remove\<close>, which raises \<open>KeyError\<close> when the element is not in the set.
\<close>

fun remove_listed ::
  "string \<Rightarrow> (string \<times> string list) list \<Rightarrow> string list \<Rightarrow> error + string list" where
  "remove_listed i [] trb = Inr trb"
| "remove_listed i ((mdep, mdep_deps) # rest) trb =
     (if i \<in> set mdep_deps then
        (if i \<in> set trb then remove_listed i rest (removeAll i trb) else Inl (KeyError i))
      else remove_listed i rest trb)"

fun corrective_pass ::
  "string list \<Rightarrow> (string \<times> string list) list \<Rightarrow> string list \<Rightarrow> error + string list" where
  "corrective_pass [] safe trb = Inr trb"
| "corrective_pass (i # rest) safe trb =
     (case remove_listed i safe trb of
        Inl e \<Rightarrow> Inl e
      | Inr trb' \<Rightarrow> corrective_pass rest safe trb')"

definition corrective :: "DependencyData \<Rightarrow> error + DependencyData" where
  "corrective dd =
     (case corrective_pass (this_requires_by dd) (safe_to_removed dd) (this_requires_by dd) of
        Inl e \<Rightarrow> Inl e
      | Inr trb \<Rightarrow> Inr (dd\<lparr>this_requires_by := trb\<rparr>))"

text \<open>\<open>analyze_recursively\<close>, lines 294-315.\<close>

definition analyze_recursively :: "environment \<Rightarrow> state \<Rightarrow> error + (bool \<times> state)" where
  "analyze_recursively env st =
     (case analyze_package_dependencies env (target (fst st)) st of
        Inl e \<Rightarrow> Inl e
      | Inr (dd1, aliases1) \<Rightarrow>
          let to_removed = dict_get (target (fst st)) [] (safe_to_removed dd1) in
          if to_removed = [] then Inr (False, dd1, aliases1)
          else
            (case analyze_each env to_removed (dd1, aliases1) of
               Inl e \<Rightarrow> Inl e
             | Inr (dd2, aliases2) \<Rightarrow>
                 (case corrective dd2 of
                    Inl e \<Rightarrow> Inl e
                  | Inr dd3 \<Rightarrow> Inr (True, dd3, aliases2))))"

section \<open>The command line\<close>

text \<open>
  \<open>_remove_packages\<close>: the set \<open>uninstalled\<close> and the arguments handed to \<open>execpip\<close>.
\<close>

definition uninstalled :: "DependencyData \<Rightarrow> string list" where
  "uninstalled dd =
     set_add (target dd)
       (fold (\<lambda>(m, deps) acc. fold set_add deps acc) (safe_to_removed dd) [])"

definition remove_packages :: "bool \<Rightarrow> DependencyData \<Rightarrow> string list" where
  "remove_packages quiet dd =
     [''uninstall'', ''--yes''] @ (if quiet then [''--quiet''] else []) @ uninstalled dd"

text \<open>
  \<open>_main\<close>: \<open>answer\<close> is what \<open>choice\<close> returns when it is asked. The result holds the
  arguments of the one call of \<open>execpip\<close>, if it was made.
\<close>

definition cli_main ::
  "environment \<Rightarrow> bool \<Rightarrow> bool \<Rightarrow> bool \<Rightarrow> state \<Rightarrow> error + (string list option \<times> state)" where
  "cli_main env yes quiet answer st =
     (case analyze_recursively env st of
        Inl e \<Rightarrow> Inl e
      | Inr (rv, st') \<Rightarrow>
          if \<not> rv then Inr (None, st')
          else if (if quiet \<or> yes then True else answer)
               then Inr (Some (remove_packages quiet (fst st')), st')
               else Inr (None, st'))"

text \<open>The body of the loop of \<open>PipRemoveCLI.main\<close>, lines 419-421, for one target.\<close>

definition run_target ::
  "environment \<Rightarrow> bool \<Rightarrow> bool \<Rightarrow> bool \<Rightarrow> alias_to_names \<Rightarrow> string \<Rightarrow>
   error + (string list option \<times> state)" where
  "run_target env yes quiet answer aliases t =
     (case resolver_init env aliases t of
        Inl e \<Rightarrow> Inl e
      | Inr st \<Rightarrow> cli_main env yes quiet answer st)"

section \<open>Example indexes\<close>

definition installed :: "string \<Rightarrow> string list \<Rightarrow> Distribution" where
  "installed n rs = \<lparr>name = n, requires = Some rs\<rparr>"

definition index_of :: "Distribution list \<Rightarrow> environment" where
  "index_of ds = \<lparr>distributions = ds, distribution = (\<lambda>n. None)\<rparr>"

text \<open>A requires B and C, B requires C, C requires A.\<close>

definition index_triangle :: environment where
  "index_triangle =
     index_of [installed ''A'' [''B'', ''C''], installed ''B'' [''C''], installed ''C'' [''A'']]"

text \<open>A and B require each other.\<close>

definition index_mutual :: environment where
  "index_mutual = index_of [installed ''A'' [''B''], installed ''B'' [''A'']]"

text \<open>A requires B and C, B requires C.\<close>

definition index_shared :: environment where
  "index_shared =
     index_of [installed ''A'' [''B'', ''C''], installed ''B'' [''C''], installed ''C'' []]"

text \<open>A requires more-itertools.\<close>

definition index_itertools :: environment where
  "index_itertools =
     index_of [installed ''A'' [''more-itertools''], installed ''more-itertools'' []]"

text \<open>A requires B, and so does D.\<close>

definition index_needed :: environment where
  "index_needed = index_of [installed ''A'' [''B''], installed ''D'' [''B''], installed ''B'' []]"

text \<open>The states that the runs on \<open>index_needed\<close> and \<open>index_mutual\<close> end in, target A.\<close>

definition needed_final :: DependencyData where
  "needed_final =
     \<lparr>target = ''A'', whitelisted = [], safe_to_removed = [(''A'', [])],
      package_depenencies_required_by = [(''A'', [(''B'', [''D''])])],
      this_requires_by = [], never_installed = [], analyzed_packages = [''A'']\<rparr>"

definition mutual_before_pass :: DependencyData where
  "mutual_before_pass =
     \<lparr>target = ''A'', whitelisted = [],
      safe_to_removed = [(''A'', [''B'']), (''B'', [''A''])],
      package_depenencies_required_by = [(''A'', []), (''B'', [])],
      this_requires_by = [''B''], never_installed = [], analyzed_packages = [''A'', ''B'']\<rparr>"

definition mutual_final :: DependencyData where
  "mutual_final = mutual_before_pass\<lparr>this_requires_by := []\<rparr>"

text \<open>The chain of the specification: A requires B, B requires C.\<close>

definition index_chain :: environment where
  "index_chain = index_of [installed ''A'' [''B''], installed ''B'' [''C''], installed ''C'' []]"

text \<open>
  A requires the installed B and C, the protected pip, and \<open>ghost\<close>, which is not installed;
  D requires C as well.
\<close>

definition index_mixed :: environment where
  "index_mixed =
     index_of [installed ''A'' [''B'', ''pip'', ''ghost'', ''C''], installed ''B'' [],
               installed ''pip'' [], installed ''C'' [], installed ''D'' [''C'']]"

text \<open>
  One distribution \<open>foo-bar\<close> requiring \<open>x\<close>; \<^verbatim>\<open>importlib.metadata\<close> also finds it under
  the name \<open>Foo_Bar\<close>.
\<close>

definition index_alias :: environment where
  "index_alias =
     \<lparr>distributions = [installed ''foo-bar'' [''x''], installed ''x'' []],
      distribution = (\<lambda>n. if n = ''Foo_Bar'' then Some (installed ''foo-bar'' [''x''])
                          else None)\<rparr>"

text \<open>
  What the run on \<open>index_alias\<close> leaves for the target \<open>Foo_Bar\<close>, and for the target
  \<open>foo-bar\<close>.
\<close>

definition alias_final :: DependencyData where
  "alias_final =
     \<lparr>target = ''Foo_Bar'', whitelisted = [], safe_to_removed = [(''foo-bar'', [''x''])],
      package_depenencies_required_by = [(''foo-bar'', [])],
      this_requires_by = [], never_installed = [], analyzed_packages = [''foo-bar'']\<rparr>"

definition canonical_final :: DependencyData where
  "canonical_final =
     \<lparr>target = ''foo-bar'', whitelisted = [],
      safe_to_removed = [(''foo-bar'', [''x'']), (''x'', [])],
      package_depenencies_required_by = [(''foo-bar'', []), (''x'', [])],
      this_requires_by = [], never_installed = [],
      analyzed_packages = [''foo-bar'', ''x'']\<rparr>"

text \<open>What analysing A as the target leaves on these indexes.\<close>

definition mixed_after :: DependencyData where
  "mixed_after =
     \<lparr>target = ''A'', whitelisted = [(''A'', ''pip'')], safe_to_removed = [(''A'', [''B''])],
      package_depenencies_required_by = [(''A'', [(''C'', [''D''])])],
      this_requires_by = [], never_installed = [(''A'', ''ghost'')],
      analyzed_packages = [''A'']\<rparr>"

definition shared_after :: DependencyData where
  "shared_after =
     \<lparr>target = ''A'', whitelisted = [], safe_to_removed = [(''A'', [''B'', ''C''])],
      package_depenencies_required_by = [(''A'', [])],
      this_requires_by = [], never_installed = [], analyzed_packages = [''A'']\<rparr>"

definition chain_after :: DependencyData where
  "chain_after =
     \<lparr>target = ''A'', whitelisted = [], safe_to_removed = [(''A'', [''B''])],
      package_depenencies_required_by = [(''A'', [])],
      this_requires_by = [], never_installed = [], analyzed_packages = [''A'']\<rparr>"

section \<open>What the index says\<close>

text \<open>
  A name is present when the snapshot has it or \<^verbatim>\<open>importlib.metadata\<close> finds it. The alias
  memo is sound when each of its entries is an answer of \<^verbatim>\<open>importlib.metadata\<close>; the memo
  starts empty and \<open>get_distribution\<close> only ever adds such entries.
\<close>

definition pkg_present :: "environment \<Rightarrow> string \<Rightarrow> bool" where
  "pkg_present env n =
     (map_of (distributions_as_dict env) n \<noteq> None
      \<or> (case importlib_distribution env n of Inl e \<Rightarrow> False | Inr d \<Rightarrow> True))"

definition aliases_ok :: "environment \<Rightarrow> alias_to_names \<Rightarrow> bool" where
  "aliases_ok env aliases =
     (\<forall>(n, c) \<in> set aliases.
        case importlib_distribution env n of Inl e \<Rightarrow> False | Inr d \<Rightarrow> name d = c)"

text \<open>
  The names a package of the snapshot declares; the declared names that are present and not
  protected (the set \<open>vaild_requirements\<close> of lines 247-254); and the packages that lines
  268-281 record as other users of dependency \<open>d\<close> of \<open>p\<close>.
\<close>

definition declared :: "environment \<Rightarrow> string \<Rightarrow> string set" where
  "declared env p = set (dict_get p [] (package_to_requirements env))"

definition valid_requirement :: "environment \<Rightarrow> string \<Rightarrow> string \<Rightarrow> bool" where
  "valid_requirement env p d = (d \<in> declared env p \<and> pkg_present env d \<and> d \<notin> WHITELIST)"

definition needed_by :: "environment \<Rightarrow> string \<Rightarrow> string \<Rightarrow> string \<Rightarrow> string \<Rightarrow> bool" where
  "needed_by env tgt p d q =
     (d \<in> declared env q \<and> q \<noteq> p \<and> \<not> valid_requirement env p q \<and> q \<notin> WHITELIST \<and> q \<noteq> tgt)"

text \<open>No item of \<open>package_to_requirements\<close> other than that of \<open>p\<close> lists \<open>d\<close>.\<close>

definition only_declared_by :: "environment \<Rightarrow> string \<Rightarrow> string \<Rightarrow> bool" where
  "only_declared_by env p d =
     (\<forall>(q, r) \<in> set (package_to_requirements env). d \<in> set r \<longrightarrow> q = p)"

text \<open>Reading the result: \<open>safe_to_removed[p]\<close>, and the keys and values of
  \<open>package_depenencies_required_by[p]\<close>, with a missing entry read as empty.\<close>

definition safe_of :: "DependencyData \<Rightarrow> string \<Rightarrow> string set" where
  "safe_of dd p = set (dict_get p [] (safe_to_removed dd))"

definition required_keys :: "DependencyData \<Rightarrow> string \<Rightarrow> string set" where
  "required_keys dd p = fst ` set (dict_get p [] (package_depenencies_required_by dd))"

definition users_of :: "DependencyData \<Rightarrow> string \<Rightarrow> string \<Rightarrow> string set" where
  "users_of dd p d = set (dict_get d [] (dict_get p [] (package_depenencies_required_by dd)))"

text \<open>
  The invariant of a run. Whatever is recorded agrees with the index: a pair in
  \<open>never_installed\<close> names an absent dependency, a pair in \<open>whitelisted\<close> a present and
  protected one, every key of \<open>package_depenencies_required_by[p]\<close> has a user, every recorded
  user is one that the scan accepts, and a name in \<open>safe_to_removed[p]\<close> is a valid
  requirement of \<open>p\<close> that no scan accepts a user for. And for an analyzed package every
  declared dependency is recorded where it belongs.
\<close>

definition state_ok :: "environment \<Rightarrow> state \<Rightarrow> bool" where
  "state_ok env st =
     (aliases_ok env (snd st)
      \<and> (\<forall>(p, d) \<in> set (never_installed (fst st)). \<not> pkg_present env d)
      \<and> (\<forall>(p, d) \<in> set (whitelisted (fst st)). pkg_present env d \<and> d \<in> WHITELIST)
      \<and> (\<forall>p d. d \<in> required_keys (fst st) p \<longrightarrow> users_of (fst st) p d \<noteq> {})
      \<and> (\<forall>p d q. q \<in> users_of (fst st) p d \<longrightarrow>
             valid_requirement env p d \<and> needed_by env (target (fst st)) p d q)
      \<and> (\<forall>p d. d \<in> safe_of (fst st) p \<longrightarrow>
             valid_requirement env p d \<and> (\<forall>q. \<not> needed_by env (target (fst st)) p d q))
      \<and> (\<forall>p \<in> set (analyzed_packages (fst st)). \<forall>d \<in> declared env p.
             (\<not> pkg_present env d \<longrightarrow> (p, d) \<in> set (never_installed (fst st)))
           \<and> (pkg_present env d \<and> d \<in> WHITELIST \<longrightarrow> (p, d) \<in> set (whitelisted (fst st)))
           \<and> (valid_requirement env p d \<longrightarrow>
                (\<forall>q. needed_by env (target (fst st)) p d q \<longrightarrow> q \<in> users_of (fst st) p d)
              \<and> ((\<forall>q. \<not> needed_by env (target (fst st)) p d q) \<longrightarrow> d \<in> safe_of (fst st) p))))"

definition exactly_one :: "bool list \<Rightarrow> bool" where
  "exactly_one bs = (length (filter (\<lambda>b. b) bs) = 1)"

text \<open>The test of lines 270-276 on one item of \<open>package_to_requirements\<close>.\<close>

definition scan_hit ::
  "string \<Rightarrow> string \<Rightarrow> string list \<Rightarrow> string \<Rightarrow> string \<times> string list \<Rightarrow> bool" where
  "scan_hit package tgt vaild dep e =
     (dep \<in> set (snd e) \<and> fst e \<noteq> package \<and> fst e \<notin> set vaild \<and> fst e \<notin> WHITELIST
      \<and> fst e \<noteq> tgt)"

section \<open>Sets and dictionaries\<close>

lemma set_set_add [simp]: "set (set_add x xs) = insert x (set xs)"
  by (auto simp: set_add_def)

lemma set_fold_set_add: "set (fold set_add deps acc) = set deps \<union> set acc"
  by (induction deps arbitrary: acc) auto

lemma dict_get_update:
  "dict_get k dflt (AList.update k' v al) = (if k = k' then v else dict_get k dflt al)"
  by (simp add: dict_get_def update_conv')

lemma dict_get_in_keys:
  "k \<in> fst ` set al \<Longrightarrow> \<exists>v. map_of al k = Some v \<and> dict_get k dflt al = v"
  by (cases "map_of al k") (auto simp: dict_get_def map_of_eq_None_iff)

lemma dict_get_not_key:
  "k \<notin> fst ` set al \<Longrightarrow> dict_get k dflt al = dflt"
  by (simp add: dict_get_def map_of_eq_None_iff [THEN iffD2])

lemma setdefault_fst: "fst (dict_setdefault k [] al) = dict_get k [] al"
  by (simp add: dict_setdefault_def dict_get_def split: option.splits)

lemma setdefault_get_other:
  "p \<noteq> k \<Longrightarrow> dict_get p dflt (snd (dict_setdefault k v al)) = dict_get p dflt al"
  by (simp add: dict_setdefault_def dict_get_update split: option.splits)

section \<open>The protected set\<close>

text \<open>
  C7. A package that is in the protected set, or that has been analyzed already, is skipped:
  \<open>_analyze_package_dependencies\<close> returns at once and leaves every field of the
  \<open>DependencyData\<close>, and the alias memo, as they were.
\<close>

theorem analyze_skips_protected_or_analyzed:
  "package \<in> WHITELIST \<or> package \<in> set (analyzed_packages dd) \<Longrightarrow>
   analyze_package_dependencies env package (dd, aliases) = Inr (dd, aliases)"
  by (simp add: analyze_package_dependencies_def)

theorem analyze_skips_protected_or_analyzed_witness:
  "(''pip'' \<in> WHITELIST \<or> ''pip'' \<in> set (analyzed_packages (new_DependencyData ''A'')))
   \<and> analyze_package_dependencies index_shared ''pip'' (new_DependencyData ''A'', [])
       = Inr (new_DependencyData ''A'', [])"
proof -
  have h: "''pip'' \<in> WHITELIST \<or> ''pip'' \<in> set (analyzed_packages (new_DependencyData ''A''))"
    by (simp add: WHITELIST_def)
  from analyze_skips_protected_or_analyzed [OF h] h show ?thesis by simp
qed

text \<open>
  C8. The protected set is meant to hold pip and the packages the program imports. It holds
  the misspelt name \<open>more-iterools\<close> and not \<open>more-itertools\<close>, and it does not hold
  \<open>typing-extensions\<close>; so a target that requires \<open>more-itertools\<close> gets it listed as
  safe to remove, not as whitelisted.
\<close>

theorem whitelist_misses_runtime_dependencies:
  "''more-itertools'' \<notin> WHITELIST \<and> ''typing-extensions'' \<notin> WHITELIST
   \<and> ''more-iterools'' \<in> WHITELIST
   \<and> analyze_package_dependencies index_itertools ''A'' (new_DependencyData ''A'', [])
       = Inr (\<lparr>target = ''A'', whitelisted = [],
                safe_to_removed = [(''A'', [''more-itertools''])],
                package_depenencies_required_by = [(''A'', [])],
                this_requires_by = [], never_installed = [],
                analyzed_packages = [''A'']\<rparr>, [])"
  by code_simp

section \<open>The alias memo\<close>

lemma aliases_ok_empty: "aliases_ok env []"
  by (simp add: aliases_ok_def)

lemma aliases_ok_lookup:
  "aliases_ok env aliases \<Longrightarrow> map_of aliases n = Some c \<Longrightarrow>
   \<exists>d. importlib_distribution env n = Inr d"
  by (cases "importlib_distribution env n") (auto simp: aliases_ok_def dest!: map_of_SomeD)

lemma aliases_ok_update:
  "aliases_ok env aliases \<Longrightarrow> importlib_distribution env n = Inr d \<Longrightarrow>
   aliases_ok env (AList.update n (name d) aliases)"
  unfolding aliases_ok_def
  by (induction aliases) (auto split: sum.splits)

lemma get_distribution_absent:
  assumes "aliases_ok env aliases" "\<not> pkg_present env t"
  shows "get_distribution env aliases t
           = Inl (if t = [] then ValueError name_required_message else PackageNotFoundError t)"
proof -
  from assms(2) have a: "map_of (distributions_as_dict env) t = None"
    and b: "\<And>d. importlib_distribution env t \<noteq> Inr d"
    by (auto simp: pkg_present_def split: sum.splits)
  have c: "map_of aliases t = None"
  proof (cases "map_of aliases t")
    case (Some c)
    from aliases_ok_lookup [OF assms(1) Some] b show ?thesis by blast
  qed simp
  have "importlib_distribution env t
          = Inl (if t = [] then ValueError name_required_message else PackageNotFoundError t)"
  proof (cases "importlib_distribution env t")
    case (Inr d)
    with b show ?thesis by blast
  next
    case (Inl e)
    then show ?thesis
      by (auto simp: importlib_distribution_def split: if_splits option.splits)
  qed
  with a c show ?thesis by (simp add: get_distribution_def)
qed

lemma get_distribution_ok:
  assumes "aliases_ok env aliases" "get_distribution env aliases n = Inr (d, aliases')"
  shows "aliases_ok env aliases' \<and> pkg_present env n"
proof (cases "map_of (distributions_as_dict env) n")
  case (Some d')
  with assms show ?thesis by (simp add: get_distribution_def pkg_present_def)
next
  case None
  show ?thesis
  proof (cases "map_of aliases n")
    case (Some c)
    from aliases_ok_lookup [OF assms(1) Some] have "pkg_present env n"
      by (auto simp: pkg_present_def)
    moreover from assms(2) None Some have "aliases' = aliases"
      by (auto simp: get_distribution_def split: option.splits)
    ultimately show ?thesis using assms(1) by simp
  next
    case n: None
    with assms(2) None have i: "importlib_distribution env n = Inr d"
      and a: "aliases' = AList.update n (name d) aliases"
      by (auto simp: get_distribution_def split: sum.splits)
    from i have "pkg_present env n" by (simp add: pkg_present_def)
    with aliases_ok_update [OF assms(1) i] a show ?thesis by simp
  qed
qed

lemma does_pkg_exists_ok:
  assumes "aliases_ok env aliases" "does_pkg_exists env aliases n = Inr (b, aliases')"
  shows "aliases_ok env aliases' \<and> b = pkg_present env n"
proof (cases "get_distribution env aliases n")
  case (Inr r)
  obtain d a where r: "r = (d, a)" by (cases r)
  with Inr assms(2) have "b" "aliases' = a" by (auto simp: does_pkg_exists_def)
  with get_distribution_ok [OF assms(1), of n d a] Inr r show ?thesis by simp
next
  case (Inl e)
  with assms(2) obtain m where e: "e = PackageNotFoundError m" and r: "\<not> b" "aliases' = aliases"
    by (auto simp: does_pkg_exists_def split: error.splits)
  have "\<not> pkg_present env n"
  proof
    assume p: "pkg_present env n"
    from Inl e have d: "map_of (distributions_as_dict env) n = None"
      by (auto simp: get_distribution_def split: option.splits)
    with p obtain d' where i: "importlib_distribution env n = Inr d'"
      by (auto simp: pkg_present_def split: sum.splits)
    from Inl e d i show False
      by (auto simp: get_distribution_def split: option.splits)
  qed
  with r assms(1) show ?thesis by simp
qed

section \<open>A target that is not installed\<close>

text \<open>
  C3 (as amended). For a target that is neither in the snapshot nor found by
  \<^verbatim>\<open>importlib.metadata\<close>, the constructor raises \<open>ValueError\<close>: with the message
  "Package '<target>' not found" of line 207 when the name is not empty, and with the
  message "A distribution name is required." of \<^verbatim>\<open>importlib.metadata\<close>, which line 147 does
  not catch, when it is empty. No \<open>DependencyData\<close> is created and nothing is analyzed: the
  whole run for that target is this error.
\<close>

theorem absent_target_raises_ValueError:
  assumes "aliases_ok env aliases" "\<not> pkg_present env t"
  shows "resolver_init env aliases t
           = Inl (ValueError (if t = [] then name_required_message else not_found_message t))
       \<and> run_target env yes quiet answer aliases t
           = Inl (ValueError (if t = [] then name_required_message else not_found_message t))"
  using get_distribution_absent [OF assms]
  by (simp add: resolver_init_def run_target_def does_pkg_exists_def)

theorem absent_target_raises_ValueError_witness:
  "aliases_ok index_shared [] \<and> \<not> pkg_present index_shared ''Z''
   \<and> \<not> pkg_present index_shared []
   \<and> resolver_init index_shared [] ''Z'' = Inl (ValueError ''Package 'Z' not found'')
   \<and> run_target index_shared False False False [] ''Z''
       = Inl (ValueError ''Package 'Z' not found'')
   \<and> resolver_init index_shared [] [] = Inl (ValueError ''A distribution name is required.'')
   \<and> run_target index_shared False False False [] []
       = Inl (ValueError ''A distribution name is required.'')"
proof -
  have a: "aliases_ok index_shared []" by (simp add: aliases_ok_def)
  have b: "\<not> pkg_present index_shared ''Z''" by code_simp
  have c: "\<not> pkg_present index_shared []" by code_simp
  from absent_target_raises_ValueError [OF a b, of False False False]
       absent_target_raises_ValueError [OF a c, of False False False] a b c
  show ?thesis by (simp add: not_found_message_def name_required_message_def)
qed

text \<open>
  C3 as stated fails: the error is not the module's \<open>PackageNotFound\<close>.
\<close>

theorem absent_target_not_PackageNotFound:
  "\<not> pkg_present index_shared ''Z''
   \<and> resolver_init index_shared [] ''Z'' \<noteq> Inl (PackageNotFound ''Z'')"
  by code_simp

section \<open>The classification of dependencies\<close>

subsection \<open>The loop over the requirements\<close>

lemma sort_requirements_ok:
  "aliases_ok env aliases \<Longrightarrow>
   sort_requirements env p rs (never, white, vaild, aliases) = Inr (never', white', vaild', aliases')
   \<Longrightarrow> aliases_ok env aliases'
     \<and> set never' = set never \<union> {(p, d) | d. d \<in> set rs \<and> \<not> pkg_present env d}
     \<and> set white' = set white \<union> {(p, d) | d. d \<in> set rs \<and> pkg_present env d \<and> d \<in> WHITELIST}
     \<and> set vaild' = set vaild \<union> {d \<in> set rs. pkg_present env d \<and> d \<notin> WHITELIST}"
proof (induction rs arbitrary: never white vaild aliases)
  case Nil
  then show ?case by simp
next
  case (Cons entry rest)
  from Cons.prems(2) obtain ex aliases1 where
    ex: "does_pkg_exists env aliases entry = Inr (ex, aliases1)"
    by (auto split: sum.splits)
  from does_pkg_exists_ok [OF Cons.prems(1) ex] have
    ok1: "aliases_ok env aliases1" and exv: "ex = pkg_present env entry" by simp_all
  show ?case
  proof (cases "pkg_present env entry")
    case False
    with Cons.prems(2) ex exv have
      "sort_requirements env p rest (set_add (p, entry) never, white, vaild, aliases1)
         = Inr (never', white', vaild', aliases')" by simp
    from Cons.IH [OF ok1 this] False show ?thesis by auto
  next
    case True
    show ?thesis
    proof (cases "entry \<in> WHITELIST")
      case w: True
      with Cons.prems(2) ex exv True have
        "sort_requirements env p rest (never, set_add (p, entry) white, vaild, aliases1)
           = Inr (never', white', vaild', aliases')" by simp
      from Cons.IH [OF ok1 this] True w show ?thesis by auto
    next
      case w: False
      with Cons.prems(2) ex exv True have
        "sort_requirements env p rest (never, white, set_add entry vaild, aliases1)
           = Inr (never', white', vaild', aliases')" by simp
      from Cons.IH [OF ok1 this] True w show ?thesis by auto
    qed
  qed
qed

lemma pull_requirements_ok:
  assumes "aliases_ok env aliases" "pull_requirements env aliases package = Inr (c, rs, aliases')"
  shows "aliases_ok env aliases' \<and> map_of (package_to_requirements env) c = Some rs"
proof (cases "map_of (package_to_requirements env) package")
  case (Some r)
  with assms show ?thesis by (simp add: pull_requirements_def)
next
  case None
  with assms(2) obtain d where
    d: "get_distribution env aliases package = Inr (d, aliases')"
       "map_of (package_to_requirements env) (name d) = Some rs" "c = name d"
    by (auto simp: pull_requirements_def split: sum.splits option.splits)
  from get_distribution_ok [OF assms(1) d(1)] d(2,3) show ?thesis by simp
qed

subsection \<open>The snapshot\<close>

lemma distinct_foldl_update:
  "distinct (map fst m) \<Longrightarrow>
   distinct (map fst (foldl (\<lambda>m d. AList.update (name d) d m) m ds))"
  by (induction ds arbitrary: m) (simp_all add: distinct_update)

lemma distinct_package_to_requirements:
  "distinct (map fst (package_to_requirements env))"
proof -
  have "map fst (package_to_requirements env) = map fst (distributions_as_dict env)"
    by (simp add: package_to_requirements_def split_def comp_def)
  with distinct_foldl_update [of "[]"] show ?thesis
    by (simp add: distributions_as_dict_def)
qed

lemma in_package_to_requirements:
  "(q, r) \<in> set (package_to_requirements env) \<longleftrightarrow>
   map_of (package_to_requirements env) q = Some r"
  using distinct_package_to_requirements by (auto dest: map_of_SomeD)

lemma declared_iff:
  "d \<in> declared env q \<longleftrightarrow> (\<exists>r. (q, r) \<in> set (package_to_requirements env) \<and> d \<in> set r)"
  by (cases "map_of (package_to_requirements env) q")
     (simp_all add: declared_def dict_get_def in_package_to_requirements)

subsection \<open>The scan for other users\<close>

lemma note_user_get:
  "dict_get d [] (note_user dep q m)
     = (if d = dep then set_add q (dict_get dep [] m) else dict_get d [] m)"
  by (cases "map_of m dep")
     (simp_all add: note_user_def dict_setdefault_def dict_get_def update_conv')

lemma note_user_keys: "fst ` set (note_user dep q m) = insert dep (fst ` set m)"
  by (cases "map_of m dep")
     (auto simp: note_user_def dict_setdefault_def dom_update dest: map_of_SomeD
        intro: rev_image_eqI)

lemma fold_scan_users_get:
  "set (dict_get d []
     (fold (\<lambda>(package_to_check, requirements) acc.
             if dep \<in> set requirements \<and> package_to_check \<noteq> package
                \<and> package_to_check \<notin> set vaild \<and> package_to_check \<notin> WHITELIST
                \<and> package_to_check \<noteq> tgt
             then note_user dep package_to_check acc else acc) xs m))
   = set (dict_get d [] m)
     \<union> (if d = dep then {fst e | e. e \<in> set xs \<and> scan_hit package tgt vaild dep e} else {})"
proof (induction xs arbitrary: m)
  case Nil
  then show ?case by simp
next
  case (Cons x xs)
  obtain q r where x: "x = (q, r)" by (cases x)
  show ?case
    unfolding x by (simp add: Cons.IH note_user_get scan_hit_def) (auto simp: scan_hit_def)
qed

lemma fold_scan_users_keys:
  "fst ` set
     (fold (\<lambda>(package_to_check, requirements) acc.
             if dep \<in> set requirements \<and> package_to_check \<noteq> package
                \<and> package_to_check \<notin> set vaild \<and> package_to_check \<notin> WHITELIST
                \<and> package_to_check \<noteq> tgt
             then note_user dep package_to_check acc else acc) xs m)
   = fst ` set m \<union> (if (\<exists>e \<in> set xs. scan_hit package tgt vaild dep e) then {dep} else {})"
proof (induction xs arbitrary: m)
  case Nil
  then show ?case by simp
next
  case (Cons x xs)
  obtain q r where x: "x = (q, r)" by (cases x)
  show ?case
    unfolding x by (simp add: Cons.IH note_user_keys scan_hit_def) (auto simp: scan_hit_def)
qed

lemma scan_users_get:
  "set (dict_get d [] (scan_users p2r package tgt vaild dep m))
   = set (dict_get d [] m)
     \<union> (if d = dep then {fst e | e. e \<in> set p2r \<and> scan_hit package tgt vaild dep e} else {})"
  unfolding scan_users_def by (rule fold_scan_users_get)

lemma scan_users_keys:
  "fst ` set (scan_users p2r package tgt vaild dep m)
   = fst ` set m \<union> (if (\<exists>e \<in> set p2r. scan_hit package tgt vaild dep e) then {dep} else {})"
  unfolding scan_users_def by (rule fold_scan_users_keys)

lemma fold_scan_required_get:
  "set (dict_get d [] (fold (scan_users p2r package tgt vaild) ds m))
   = set (dict_get d [] m)
     \<union> (if d \<in> set ds then {fst e | e. e \<in> set p2r \<and> scan_hit package tgt vaild d e} else {})"
  by (induction ds arbitrary: m) (auto simp: scan_users_get)

lemma fold_scan_required_keys:
  "fst ` set (fold (scan_users p2r package tgt vaild) ds m)
   = fst ` set m \<union> {d \<in> set ds. \<exists>e \<in> set p2r. scan_hit package tgt vaild d e}"
  by (induction ds arbitrary: m) (auto simp: scan_users_keys)

lemma hits_are_needed_by:
  assumes "set vaild = {d. valid_requirement env c d}"
  shows "{fst e | e. e \<in> set (package_to_requirements env) \<and> scan_hit c tgt vaild d e}
           = {q. needed_by env tgt c d q}"
  using assms by (auto simp: scan_hit_def needed_by_def declared_iff)

lemma hit_iff_needed_by:
  assumes "set vaild = {d. valid_requirement env c d}"
  shows "(\<exists>e \<in> set (package_to_requirements env). scan_hit c tgt vaild d e)
           \<longleftrightarrow> (\<exists>q. needed_by env tgt c d q)"
  using hits_are_needed_by [OF assms, of tgt d] by blast

lemma scan_required_by_get:
  assumes "set vaild = {d. valid_requirement env c d}"
  shows "set (dict_get d [] (scan_required_by (package_to_requirements env) c tgt vaild m))
     = set (dict_get d [] m)
       \<union> (if valid_requirement env c d then {q. needed_by env tgt c d q} else {})"
  unfolding scan_required_by_def fold_scan_required_get hits_are_needed_by [OF assms]
  using assms by auto

lemma scan_required_by_keys:
  assumes "set vaild = {d. valid_requirement env c d}"
  shows "fst ` set (scan_required_by (package_to_requirements env) c tgt vaild m)
     = fst ` set m \<union> {d. valid_requirement env c d \<and> (\<exists>q. needed_by env tgt c d q)}"
  unfolding scan_required_by_def fold_scan_required_keys hit_iff_needed_by [OF assms]
  using assms by auto

subsection \<open>What one analysis changes\<close>

lemma analyze_effect:
  assumes ok: "aliases_ok env aliases"
    and run: "analyze_package_dependencies env package (dd, aliases) = Inr (dd', aliases')"
    and fresh: "package \<notin> WHITELIST" "package \<notin> set (analyzed_packages dd)"
  obtains c where "map_of (package_to_requirements env) c \<noteq> None"
    and "aliases_ok env aliases'" and "target dd' = target dd"
    and "set (never_installed dd')
        = set (never_installed dd) \<union> {(c, d) | d. d \<in> declared env c \<and> \<not> pkg_present env d}"
    and "set (whitelisted dd')
        = set (whitelisted dd)
          \<union> {(c, d) | d. d \<in> declared env c \<and> pkg_present env d \<and> d \<in> WHITELIST}"
    and "set (analyzed_packages dd') = insert c (set (analyzed_packages dd))"
    and "\<And>p. p \<noteq> c \<Longrightarrow> safe_of dd' p = safe_of dd p"
    and "\<And>p. p \<noteq> c \<Longrightarrow> required_keys dd' p = required_keys dd p"
    and "\<And>p d. p \<noteq> c \<Longrightarrow> users_of dd' p d = users_of dd p d"
    and "\<And>d. users_of dd' c d
             = users_of dd c d
               \<union> (if valid_requirement env c d then {q. needed_by env (target dd) c d q} else {})"
    and "required_keys dd' c
        = required_keys dd c
          \<union> {d. valid_requirement env c d \<and> (\<exists>q. needed_by env (target dd) c d q)}"
    and "safe_of dd' c = {d. valid_requirement env c d} - required_keys dd' c"
proof -
  from run fresh obtain c rs aliases1 where
    pull: "pull_requirements env aliases package = Inr (c, rs, aliases1)"
    by (auto simp: analyze_package_dependencies_def split: sum.splits)
  from pull_requirements_ok [OF ok pull] have
    ok1: "aliases_ok env aliases1" and rs: "map_of (package_to_requirements env) c = Some rs"
    by simp_all
  from rs have decl: "declared env c = set rs" by (simp add: declared_def dict_get_def)
  define safe1 where "safe1 = snd (dict_setdefault c [] (safe_to_removed dd))"
  define required where "required = dict_get c [] (package_depenencies_required_by dd)"
  define required_by1 where
    "required_by1 = snd (dict_setdefault c [] (package_depenencies_required_by dd))"
  from run fresh pull obtain never white vaild where
    sort: "sort_requirements env c rs (never_installed dd, whitelisted dd, [], aliases1)
             = Inr (never, white, vaild, aliases')"
    by (cases "sort_requirements env c rs (never_installed dd, whitelisted dd, [], aliases1)")
       (auto simp: analyze_package_dependencies_def Let_def split_def)
  from sort_requirements_ok [OF ok1 sort] decl have
    ok2: "aliases_ok env aliases'"
    and nv: "set never
       = set (never_installed dd) \<union> {(c, d) | d. d \<in> declared env c \<and> \<not> pkg_present env d}"
    and wh: "set white
       = set (whitelisted dd)
         \<union> {(c, d) | d. d \<in> declared env c \<and> pkg_present env d \<and> d \<in> WHITELIST}"
    and va: "set vaild = {d. valid_requirement env c d}"
    by (auto simp: valid_requirement_def)
  define required' where
    "required' = scan_required_by (package_to_requirements env) c (target dd) vaild required"
  define safe where "safe = filter (\<lambda>d. d \<notin> fst ` set required') vaild"
  from run fresh pull sort have dd': "dd' = dd\<lparr>whitelisted := white,
        safe_to_removed := AList.update c safe safe1,
        package_depenencies_required_by := AList.update c required' required_by1,
        this_requires_by := (if c = target dd
           then scan_this_requires_by (package_to_requirements env) c (this_requires_by dd)
           else this_requires_by dd),
        never_installed := never,
        analyzed_packages := set_add c (analyzed_packages dd)\<rparr>"
    by (auto simp: analyze_package_dependencies_def Let_def split_def safe_def required'_def
          required_def safe1_def required_by1_def setdefault_fst)
  have o1: "\<And>p. p \<noteq> c \<Longrightarrow> safe_of dd' p = safe_of dd p"
    by (simp add: dd' safe_of_def dict_get_update safe1_def setdefault_get_other)
  have o2: "\<And>p. p \<noteq> c \<Longrightarrow> required_keys dd' p = required_keys dd p"
    by (simp add: dd' required_keys_def dict_get_update required_by1_def setdefault_get_other)
  have o3: "\<And>p d. p \<noteq> c \<Longrightarrow> users_of dd' p d = users_of dd p d"
    by (simp add: dd' users_of_def dict_get_update required_by1_def setdefault_get_other)
  have users: "\<And>d. users_of dd' c d
       = users_of dd c d
         \<union> (if valid_requirement env c d then {q. needed_by env (target dd) c d q} else {})"
    by (simp add: dd' users_of_def dict_get_update required'_def required_def
          scan_required_by_get [OF va])
  have keys: "required_keys dd' c
       = required_keys dd c
         \<union> {d. valid_requirement env c d \<and> (\<exists>q. needed_by env (target dd) c d q)}"
    by (simp add: dd' required_keys_def dict_get_update required'_def required_def
          scan_required_by_keys [OF va])
  have safe_eq: "safe_of dd' c = {d. valid_requirement env c d} - required_keys dd' c"
    using va by (auto simp: dd' safe_of_def required_keys_def dict_get_update safe_def)
  have tg: "target dd' = target dd" by (simp add: dd')
  have nv': "set (never_installed dd')
        = set (never_installed dd) \<union> {(c, d) | d. d \<in> declared env c \<and> \<not> pkg_present env d}"
    using nv by (simp add: dd')
  have wh': "set (whitelisted dd')
        = set (whitelisted dd)
          \<union> {(c, d) | d. d \<in> declared env c \<and> pkg_present env d \<and> d \<in> WHITELIST}"
    using wh by (simp add: dd')
  have an: "set (analyzed_packages dd') = insert c (set (analyzed_packages dd))"
    by (simp add: dd')
  from rs have "map_of (package_to_requirements env) c \<noteq> None" by simp
  from that [OF this ok2 tg nv' wh' an o1 o2 o3 users keys safe_eq] show thesis .
qed

subsection \<open>The invariant\<close>

lemma state_okD:
  assumes "state_ok env st"
  shows "aliases_ok env (snd st)"
    and "(p, d) \<in> set (never_installed (fst st)) \<Longrightarrow> \<not> pkg_present env d"
    and "(p, d) \<in> set (whitelisted (fst st)) \<Longrightarrow> pkg_present env d \<and> d \<in> WHITELIST"
    and "d \<in> required_keys (fst st) p \<Longrightarrow> users_of (fst st) p d \<noteq> {}"
    and "q \<in> users_of (fst st) p d \<Longrightarrow>
           valid_requirement env p d \<and> needed_by env (target (fst st)) p d q"
    and "d \<in> safe_of (fst st) p \<Longrightarrow>
           valid_requirement env p d \<and> (\<forall>q. \<not> needed_by env (target (fst st)) p d q)"
proof -
  note a = assms [unfolded state_ok_def]
  from a show "aliases_ok env (snd st)" by (rule conjunct1)
  from a have "\<forall>(p, d) \<in> set (never_installed (fst st)). \<not> pkg_present env d"
    by (elim conjE)
  then show "(p, d) \<in> set (never_installed (fst st)) \<Longrightarrow> \<not> pkg_present env d" by blast
  from a have "\<forall>(p, d) \<in> set (whitelisted (fst st)). pkg_present env d \<and> d \<in> WHITELIST"
    by (elim conjE)
  then show "(p, d) \<in> set (whitelisted (fst st)) \<Longrightarrow> pkg_present env d \<and> d \<in> WHITELIST"
    by blast
  from a have "\<forall>p d. d \<in> required_keys (fst st) p \<longrightarrow> users_of (fst st) p d \<noteq> {}"
    by (elim conjE)
  then show "d \<in> required_keys (fst st) p \<Longrightarrow> users_of (fst st) p d \<noteq> {}" by blast
  from a have "\<forall>p d q. q \<in> users_of (fst st) p d \<longrightarrow>
             valid_requirement env p d \<and> needed_by env (target (fst st)) p d q"
    by (elim conjE)
  then show "q \<in> users_of (fst st) p d \<Longrightarrow>
           valid_requirement env p d \<and> needed_by env (target (fst st)) p d q" by blast
  from a have "\<forall>p d. d \<in> safe_of (fst st) p \<longrightarrow>
             valid_requirement env p d \<and> (\<forall>q. \<not> needed_by env (target (fst st)) p d q)"
    by (elim conjE)
  then show "d \<in> safe_of (fst st) p \<Longrightarrow>
           valid_requirement env p d \<and> (\<forall>q. \<not> needed_by env (target (fst st)) p d q)" by blast
qed

lemma state_ok_analyzedD:
  assumes "state_ok env st" "p \<in> set (analyzed_packages (fst st))" "d \<in> declared env p"
  shows "(\<not> pkg_present env d \<longrightarrow> (p, d) \<in> set (never_installed (fst st)))
       \<and> (pkg_present env d \<and> d \<in> WHITELIST \<longrightarrow> (p, d) \<in> set (whitelisted (fst st)))
       \<and> (valid_requirement env p d \<longrightarrow>
            (\<forall>q. needed_by env (target (fst st)) p d q \<longrightarrow> q \<in> users_of (fst st) p d)
          \<and> ((\<forall>q. \<not> needed_by env (target (fst st)) p d q) \<longrightarrow> d \<in> safe_of (fst st) p))"
proof -
  from assms(1) [unfolded state_ok_def] have
    "\<forall>p \<in> set (analyzed_packages (fst st)). \<forall>d \<in> declared env p.
             (\<not> pkg_present env d \<longrightarrow> (p, d) \<in> set (never_installed (fst st)))
           \<and> (pkg_present env d \<and> d \<in> WHITELIST \<longrightarrow> (p, d) \<in> set (whitelisted (fst st)))
           \<and> (valid_requirement env p d \<longrightarrow>
                (\<forall>q. needed_by env (target (fst st)) p d q \<longrightarrow> q \<in> users_of (fst st) p d)
              \<and> ((\<forall>q. \<not> needed_by env (target (fst st)) p d q) \<longrightarrow> d \<in> safe_of (fst st) p))"
    by (elim conjE)
  from bspec [OF bspec [OF this assms(2)] assms(3)] show ?thesis .
qed

lemma state_okI:
  assumes "aliases_ok env (snd st)"
    and "\<forall>(p, d) \<in> set (never_installed (fst st)). \<not> pkg_present env d"
    and "\<forall>(p, d) \<in> set (whitelisted (fst st)). pkg_present env d \<and> d \<in> WHITELIST"
    and "\<forall>p d. d \<in> required_keys (fst st) p \<longrightarrow> users_of (fst st) p d \<noteq> {}"
    and "\<forall>p d q. q \<in> users_of (fst st) p d \<longrightarrow>
             valid_requirement env p d \<and> needed_by env (target (fst st)) p d q"
    and "\<forall>p d. d \<in> safe_of (fst st) p \<longrightarrow>
             valid_requirement env p d \<and> (\<forall>q. \<not> needed_by env (target (fst st)) p d q)"
    and "\<forall>p \<in> set (analyzed_packages (fst st)). \<forall>d \<in> declared env p.
             (\<not> pkg_present env d \<longrightarrow> (p, d) \<in> set (never_installed (fst st)))
           \<and> (pkg_present env d \<and> d \<in> WHITELIST \<longrightarrow> (p, d) \<in> set (whitelisted (fst st)))
           \<and> (valid_requirement env p d \<longrightarrow>
                (\<forall>q. needed_by env (target (fst st)) p d q \<longrightarrow> q \<in> users_of (fst st) p d)
              \<and> ((\<forall>q. \<not> needed_by env (target (fst st)) p d q) \<longrightarrow> d \<in> safe_of (fst st) p))"
  shows "state_ok env st"
  unfolding state_ok_def using assms by (intro conjI)

lemma state_ok_new:
  "aliases_ok env aliases \<Longrightarrow> state_ok env (new_DependencyData t, aliases)"
  by (rule state_okI)
     (simp_all add: new_DependencyData_def safe_of_def required_keys_def users_of_def
        dict_get_def)

lemma state_ok_resolver_init:
  assumes "aliases_ok env aliases" "resolver_init env aliases t = Inr st"
  shows "state_ok env st"
proof -
  from assms(2) obtain aliases' where
    e: "does_pkg_exists env aliases t = Inr (True, aliases')"
    and st: "st = (new_DependencyData t, aliases')"
    by (auto simp: resolver_init_def split: sum.splits if_splits)
  from does_pkg_exists_ok [OF assms(1) e] have "aliases_ok env aliases'" by simp
  then show ?thesis unfolding st by (rule state_ok_new)
qed

lemma state_ok_analyze:
  assumes ok: "state_ok env st" and run: "analyze_package_dependencies env package st = Inr st'"
  shows "state_ok env st'"
proof (cases "package \<in> WHITELIST \<or> package \<in> set (analyzed_packages (fst st))")
  case True
  with run have "st' = st" by (cases st) (simp add: analyze_package_dependencies_def)
  with ok show ?thesis by simp
next
  case False
  obtain dd aliases where st: "st = (dd, aliases)" by (cases st)
  obtain dd' aliases' where st': "st' = (dd', aliases')" by (cases st')
  from state_okD(1) [OF ok] st have al: "aliases_ok env aliases" by simp
  from False st have fresh: "package \<notin> WHITELIST" "package \<notin> set (analyzed_packages dd)"
    by simp_all
  have i1: "\<And>p d. (p, d) \<in> set (never_installed dd) \<Longrightarrow> \<not> pkg_present env d"
    using state_okD(2) [OF ok] st by simp
  have i2: "\<And>p d. (p, d) \<in> set (whitelisted dd) \<Longrightarrow> pkg_present env d \<and> d \<in> WHITELIST"
    using state_okD(3) [OF ok] st by simp
  have i3: "\<And>p d. d \<in> required_keys dd p \<Longrightarrow> users_of dd p d \<noteq> {}"
    using state_okD(4) [OF ok] st by simp
  have i4: "\<And>p d q. q \<in> users_of dd p d \<Longrightarrow>
               valid_requirement env p d \<and> needed_by env (target dd) p d q"
    using state_okD(5) [OF ok] st by simp
  have i5: "\<And>p d. d \<in> safe_of dd p \<Longrightarrow>
               valid_requirement env p d \<and> (\<forall>q. \<not> needed_by env (target dd) p d q)"
    using state_okD(6) [OF ok] st by simp
  have i6: "\<And>p d. p \<in> set (analyzed_packages dd) \<Longrightarrow> d \<in> declared env p \<Longrightarrow>
             (\<not> pkg_present env d \<longrightarrow> (p, d) \<in> set (never_installed dd))
           \<and> (pkg_present env d \<and> d \<in> WHITELIST \<longrightarrow> (p, d) \<in> set (whitelisted dd))
           \<and> (valid_requirement env p d \<longrightarrow>
                (\<forall>q. needed_by env (target dd) p d q \<longrightarrow> q \<in> users_of dd p d)
              \<and> ((\<forall>q. \<not> needed_by env (target dd) p d q) \<longrightarrow> d \<in> safe_of dd p))"
    using state_ok_analyzedD [OF ok] st by simp
  show ?thesis
  proof (rule analyze_effect [OF al run [unfolded st st'] fresh])
    fix c assume
      "map_of (package_to_requirements env) c \<noteq> None"
      and al': "aliases_ok env aliases'" and tg: "target dd' = target dd"
      and nv: "set (never_installed dd')
          = set (never_installed dd) \<union> {(c, d) | d. d \<in> declared env c \<and> \<not> pkg_present env d}"
      and wh: "set (whitelisted dd')
          = set (whitelisted dd)
            \<union> {(c, d) | d. d \<in> declared env c \<and> pkg_present env d \<and> d \<in> WHITELIST}"
      and an: "set (analyzed_packages dd') = insert c (set (analyzed_packages dd))"
      and ot1: "\<And>p. p \<noteq> c \<Longrightarrow> safe_of dd' p = safe_of dd p"
      and ot2: "\<And>p. p \<noteq> c \<Longrightarrow> required_keys dd' p = required_keys dd p"
      and ot3: "\<And>p d. p \<noteq> c \<Longrightarrow> users_of dd' p d = users_of dd p d"
      and us: "\<And>d. users_of dd' c d
               = users_of dd c d
                 \<union> (if valid_requirement env c d then {q. needed_by env (target dd) c d q} else {})"
      and ks: "required_keys dd' c
          = required_keys dd c
            \<union> {d. valid_requirement env c d \<and> (\<exists>q. needed_by env (target dd) c d q)}"
      and sf: "safe_of dd' c = {d. valid_requirement env c d} - required_keys dd' c"
    have g1: "\<forall>(p, d) \<in> set (never_installed dd'). \<not> pkg_present env d"
      using i1 by (auto simp: nv)
    have g2: "\<forall>(p, d) \<in> set (whitelisted dd'). pkg_present env d \<and> d \<in> WHITELIST"
      using i2 by (auto simp: wh)
    have g3: "\<forall>p d. d \<in> required_keys dd' p \<longrightarrow> users_of dd' p d \<noteq> {}"
    proof (intro allI impI)
      fix p d assume k: "d \<in> required_keys dd' p"
      show "users_of dd' p d \<noteq> {}"
      proof (cases "p = c")
        case True
        with k ks i3 [of d c] us [of d] show ?thesis by auto
      next
        case False
        with k ot2 ot3 i3 [of d p] show ?thesis by simp
      qed
    qed
    have g4: "\<forall>p d q. q \<in> users_of dd' p d \<longrightarrow>
               valid_requirement env p d \<and> needed_by env (target dd') p d q"
    proof (intro allI impI)
      fix p d q assume u: "q \<in> users_of dd' p d"
      show "valid_requirement env p d \<and> needed_by env (target dd') p d q"
      proof (cases "p = c")
        case True
        with u us [of d] i4 [of q c d] tg show ?thesis by (auto split: if_splits)
      next
        case False
        with u ot3 i4 [of q p d] tg show ?thesis by simp
      qed
    qed
    have g5: "\<forall>p d. d \<in> safe_of dd' p \<longrightarrow>
               valid_requirement env p d \<and> (\<forall>q. \<not> needed_by env (target dd') p d q)"
    proof (intro allI impI)
      fix p d assume s: "d \<in> safe_of dd' p"
      show "valid_requirement env p d \<and> (\<forall>q. \<not> needed_by env (target dd') p d q)"
      proof (cases "p = c")
        case True
        with s sf ks tg show ?thesis by auto
      next
        case False
        with s ot1 i5 [of d p] tg show ?thesis by simp
      qed
    qed
    have g6: "\<forall>p \<in> set (analyzed_packages dd'). \<forall>d \<in> declared env p.
               (\<not> pkg_present env d \<longrightarrow> (p, d) \<in> set (never_installed dd'))
             \<and> (pkg_present env d \<and> d \<in> WHITELIST \<longrightarrow> (p, d) \<in> set (whitelisted dd'))
             \<and> (valid_requirement env p d \<longrightarrow>
                  (\<forall>q. needed_by env (target dd') p d q \<longrightarrow> q \<in> users_of dd' p d)
                \<and> ((\<forall>q. \<not> needed_by env (target dd') p d q) \<longrightarrow> d \<in> safe_of dd' p))"
    proof (intro ballI)
      fix p d assume p: "p \<in> set (analyzed_packages dd')" and d: "d \<in> declared env p"
      show "(\<not> pkg_present env d \<longrightarrow> (p, d) \<in> set (never_installed dd'))
             \<and> (pkg_present env d \<and> d \<in> WHITELIST \<longrightarrow> (p, d) \<in> set (whitelisted dd'))
             \<and> (valid_requirement env p d \<longrightarrow>
                  (\<forall>q. needed_by env (target dd') p d q \<longrightarrow> q \<in> users_of dd' p d)
                \<and> ((\<forall>q. \<not> needed_by env (target dd') p d q) \<longrightarrow> d \<in> safe_of dd' p))"
      proof (cases "p = c")
        case True
        have "valid_requirement env c d \<Longrightarrow> \<forall>q. \<not> needed_by env (target dd) c d q
              \<Longrightarrow> d \<notin> required_keys dd' c"
        proof
          assume v: "valid_requirement env c d" and n: "\<forall>q. \<not> needed_by env (target dd) c d q"
            and k: "d \<in> required_keys dd' c"
          from k ks n have "d \<in> required_keys dd c" by auto
          from i3 [OF this] obtain q where "q \<in> users_of dd c d" by auto
          from i4 [OF this] n show False by simp
        qed
        with True d nv wh us [of d] sf tg show ?thesis by auto
      next
        case False
        with p an have "p \<in> set (analyzed_packages dd)" by simp
        from i6 [OF this d] False ot1 ot3 nv wh tg show ?thesis by auto
      qed
    qed
    from state_okI [of env "(dd', aliases')", unfolded fst_conv snd_conv,
        OF al' g1 g2 g3 g4 g5 g6]
    show ?thesis unfolding st' .
  qed
qed

lemma state_ok_analyze_each:
  "state_ok env st \<Longrightarrow> analyze_each env ts st = Inr st' \<Longrightarrow> state_ok env st'"
proof (induction ts arbitrary: st)
  case (Cons t ts)
  from Cons.prems(2) obtain st1 where
    s1: "analyze_package_dependencies env t st = Inr st1" "analyze_each env ts st1 = Inr st'"
    by (auto split: sum.splits)
  from Cons.IH [OF state_ok_analyze [OF Cons.prems(1) s1(1)] s1(2)] show ?case .
qed simp

lemma state_ok_this_requires_by:
  "state_ok env (dd\<lparr>this_requires_by := trb\<rparr>, aliases) = state_ok env (dd, aliases)"
  by (simp add: state_ok_def safe_of_def required_keys_def users_of_def)

lemma state_ok_analyze_recursively:
  assumes "state_ok env st" "analyze_recursively env st = Inr (rv, st')"
  shows "state_ok env st'"
proof -
  from assms(2) obtain st1 where
    s1: "analyze_package_dependencies env (target (fst st)) st = Inr st1"
    by (auto simp: analyze_recursively_def split: sum.splits)
  have ok1: "state_ok env st1" by (rule state_ok_analyze [OF assms(1) s1])
  show ?thesis
  proof (cases "dict_get (target (fst st)) [] (safe_to_removed (fst st1)) = []")
    case True
    with assms(2) s1 have "st' = st1"
      by (cases st1) (simp add: analyze_recursively_def)
    with ok1 show ?thesis by simp
  next
    case False
    with assms(2) s1 obtain dd2 aliases2 dd3 where
      s2: "analyze_each env (dict_get (target (fst st)) [] (safe_to_removed (fst st1))) st1
             = Inr (dd2, aliases2)"
      and s3: "corrective dd2 = Inr dd3" and st': "st' = (dd3, aliases2)"
      by (cases st1) (auto simp: analyze_recursively_def Let_def split: sum.splits)
    from s3 obtain trb where "dd3 = dd2\<lparr>this_requires_by := trb\<rparr>"
      by (auto simp: corrective_def split: sum.splits)
    with state_ok_analyze_each [OF ok1 s2] show ?thesis
      unfolding st' by (simp add: state_ok_this_requires_by)
  qed
qed

lemma users_have_key:
  "q \<in> users_of dd p d \<Longrightarrow> d \<in> required_keys dd p"
  by (cases "map_of (dict_get p [] (package_depenencies_required_by dd)) d")
     (auto simp: users_of_def required_keys_def dict_get_def [of d] dest!: map_of_SomeD
        intro: rev_image_eqI)

subsection \<open>The claims\<close>

text \<open>
  C1. After an analysis that completes from a state of a run, every declared dependency \<open>d\<close> of
  every analyzed package \<open>p\<close> is in exactly one of: \<open>whitelisted\<close> (as the pair \<open>(p, d)\<close>),
  \<open>never_installed\<close> (as the pair), \<open>safe_to_removed[p]\<close>, the keys of
  \<open>package_depenencies_required_by[p]\<close>.
\<close>

theorem classification_partitions_dependencies:
  assumes "state_ok env st" "analyze_package_dependencies env package st = Inr st'"
    and "p \<in> set (analyzed_packages (fst st'))" "d \<in> declared env p"
  shows "exactly_one [(p, d) \<in> set (whitelisted (fst st')),
                      (p, d) \<in> set (never_installed (fst st')),
                      d \<in> safe_of (fst st') p,
                      d \<in> required_keys (fst st') p]"
proof -
  let ?dd = "fst st'"
  have ok: "state_ok env st'" by (rule state_ok_analyze [OF assms(1,2)])
  note n = state_okD(2) [OF ok, of p d] and w = state_okD(3) [OF ok, of p d]
    and s = state_okD(6) [OF ok, of d p] and a = state_ok_analyzedD [OF ok assms(3,4)]
  have k: "valid_requirement env p d \<and> (\<exists>q. needed_by env (target ?dd) p d q)"
    if "d \<in> required_keys ?dd p"
  proof -
    from state_okD(4) [OF ok that] obtain q where "q \<in> users_of ?dd p d" by blast
    from state_okD(5) [OF ok this] show ?thesis by blast
  qed
  have k': "d \<in> required_keys ?dd p"
    if "valid_requirement env p d" "needed_by env (target ?dd) p d q" for q
  proof -
    from a that have "q \<in> users_of ?dd p d" by blast
    then show ?thesis by (rule users_have_key)
  qed
  have v: "valid_requirement env p d \<longleftrightarrow> pkg_present env d \<and> d \<notin> WHITELIST"
    using assms(4) by (simp add: valid_requirement_def)
  consider (absent) "\<not> pkg_present env d"
    | (white) "pkg_present env d" "d \<in> WHITELIST"
    | (free) "valid_requirement env p d" "\<forall>q. \<not> needed_by env (target ?dd) p d q"
    | (used) q where "valid_requirement env p d" "needed_by env (target ?dd) p d q"
    using v by blast
  then show ?thesis
  proof cases
    case absent
    with a have "(p, d) \<in> set (never_installed ?dd)" by blast
    moreover from absent w have "(p, d) \<notin> set (whitelisted ?dd)" by blast
    moreover from absent s v have "d \<notin> safe_of ?dd p" by blast
    moreover from absent k v have "d \<notin> required_keys ?dd p" by blast
    ultimately show ?thesis by (simp add: exactly_one_def)
  next
    case white
    with a have "(p, d) \<in> set (whitelisted ?dd)" by blast
    moreover from white n have "(p, d) \<notin> set (never_installed ?dd)" by blast
    moreover from white s v have "d \<notin> safe_of ?dd p" by blast
    moreover from white k v have "d \<notin> required_keys ?dd p" by blast
    ultimately show ?thesis by (simp add: exactly_one_def)
  next
    case free
    with a have "d \<in> safe_of ?dd p" by blast
    moreover from free n v have "(p, d) \<notin> set (never_installed ?dd)" by blast
    moreover from free w v have "(p, d) \<notin> set (whitelisted ?dd)" by blast
    moreover from free k have "d \<notin> required_keys ?dd p" by blast
    ultimately show ?thesis by (simp add: exactly_one_def)
  next
    case used
    from k' [OF used] have "d \<in> required_keys ?dd p" .
    moreover from used n v have "(p, d) \<notin> set (never_installed ?dd)" by blast
    moreover from used w v have "(p, d) \<notin> set (whitelisted ?dd)" by blast
    moreover from used s have "d \<notin> safe_of ?dd p" by blast
    ultimately show ?thesis by (simp add: exactly_one_def)
  qed
qed

theorem classification_partitions_dependencies_witness:
  "state_ok index_mixed (new_DependencyData ''A'', [])
   \<and> analyze_package_dependencies index_mixed ''A'' (new_DependencyData ''A'', [])
       = Inr (mixed_after, [])
   \<and> ''A'' \<in> set (analyzed_packages mixed_after)
   \<and> ''C'' \<in> declared index_mixed ''A''
   \<and> exactly_one [(''A'', ''C'') \<in> set (whitelisted mixed_after),
                   (''A'', ''C'') \<in> set (never_installed mixed_after),
                   ''C'' \<in> safe_of mixed_after ''A'',
                   ''C'' \<in> required_keys mixed_after ''A'']"
proof -
  have a: "state_ok index_mixed (new_DependencyData ''A'', [])"
    by (rule state_ok_new [OF aliases_ok_empty])
  have b: "analyze_package_dependencies index_mixed ''A'' (new_DependencyData ''A'', [])
       = Inr (mixed_after, [])" by code_simp
  have c: "''A'' \<in> set (analyzed_packages (fst (mixed_after, [])))"
    by (simp add: mixed_after_def)
  have d: "''C'' \<in> declared index_mixed ''A''" by code_simp
  from classification_partitions_dependencies [OF a b c d] a b c d show ?thesis by simp
qed

text \<open>
  C2 (as amended). Let \<open>d\<close> be a present, unprotected declared dependency of the analyzed
  package \<open>p\<close>, and let \<open>q\<close> declare \<open>d\<close>, where \<open>q\<close> is not \<open>p\<close>, not protected, not the target,
  and not itself a present, unprotected declared dependency of \<open>p\<close>. Then \<open>d\<close> is not in
  \<open>safe_to_removed[p]\<close> and \<open>q\<close> is in \<open>package_depenencies_required_by[p][d]\<close>.
\<close>

theorem other_user_blocks_removal:
  assumes "state_ok env st" "analyze_package_dependencies env package st = Inr st'"
    and "p \<in> set (analyzed_packages (fst st'))"
    and "d \<in> declared env p" "pkg_present env d" "d \<notin> WHITELIST"
    and "d \<in> declared env q" "q \<noteq> p" "q \<notin> WHITELIST" "q \<noteq> target (fst st')"
    and "\<not> valid_requirement env p q"
  shows "d \<notin> safe_of (fst st') p \<and> q \<in> users_of (fst st') p d"
proof -
  have ok: "state_ok env st'" by (rule state_ok_analyze [OF assms(1,2)])
  have v: "valid_requirement env p d" using assms(4,5,6) by (simp add: valid_requirement_def)
  have nb: "needed_by env (target (fst st')) p d q"
    using assms(7-11) by (simp add: needed_by_def)
  from state_ok_analyzedD [OF ok assms(3,4)] v nb have "q \<in> users_of (fst st') p d" by blast
  moreover from state_okD(6) [OF ok, of d p] nb have "d \<notin> safe_of (fst st') p" by blast
  ultimately show ?thesis by simp
qed

theorem other_user_blocks_removal_witness:
  "state_ok index_needed (new_DependencyData ''A'', [])
   \<and> analyze_package_dependencies index_needed ''A'' (new_DependencyData ''A'', [])
       = Inr (needed_final, [])
   \<and> ''A'' \<in> set (analyzed_packages needed_final)
   \<and> ''B'' \<in> declared index_needed ''A'' \<and> pkg_present index_needed ''B''
   \<and> ''B'' \<notin> WHITELIST \<and> ''B'' \<in> declared index_needed ''D'' \<and> ''D'' \<noteq> ''A''
   \<and> ''D'' \<notin> WHITELIST \<and> ''D'' \<noteq> target needed_final
   \<and> \<not> valid_requirement index_needed ''A'' ''D''
   \<and> ''B'' \<notin> safe_of needed_final ''A'' \<and> ''D'' \<in> users_of needed_final ''A'' ''B''"
proof -
  have a: "state_ok index_needed (new_DependencyData ''A'', [])"
    by (rule state_ok_new [OF aliases_ok_empty])
  have b: "analyze_package_dependencies index_needed ''A'' (new_DependencyData ''A'', [])
       = Inr (needed_final, [])" by code_simp
  have c: "''A'' \<in> set (analyzed_packages (fst (needed_final, [])))"
    by (simp add: needed_final_def)
  have d: "''B'' \<in> declared index_needed ''A''" by code_simp
  have e: "pkg_present index_needed ''B''" by code_simp
  have f: "''B'' \<notin> WHITELIST" by (simp add: WHITELIST_def)
  have g: "''B'' \<in> declared index_needed ''D''" by code_simp
  have h: "''D'' \<noteq> ''A''" by simp
  have i: "''D'' \<notin> WHITELIST" by (simp add: WHITELIST_def)
  have j: "''D'' \<noteq> target (fst (needed_final, []))" by (simp add: needed_final_def)
  have k: "\<not> valid_requirement index_needed ''A'' ''D''" by code_simp
  from other_user_blocks_removal [OF a b c d e f g h i j k] a b c d e f g h i j k
  show ?thesis by simp
qed

text \<open>
  C2 as stated fails: line 273 skips a user that is itself a valid requirement of the package.
  With A requiring B and C, and B requiring C, B declares C and is neither A, nor protected,
  nor the target; yet C is safe to remove for A and B is not recorded as its user.
\<close>

theorem valid_requirement_user_not_recorded:
  "analyze_package_dependencies index_shared ''A'' (new_DependencyData ''A'', [])
     = Inr (shared_after, [])
   \<and> ''A'' \<in> set (analyzed_packages shared_after)
   \<and> ''C'' \<in> declared index_shared ''A'' \<and> pkg_present index_shared ''C''
   \<and> ''C'' \<notin> WHITELIST \<and> ''C'' \<in> declared index_shared ''B'' \<and> ''B'' \<noteq> ''A''
   \<and> ''B'' \<notin> WHITELIST \<and> ''B'' \<noteq> target shared_after
   \<and> ''C'' \<in> safe_of shared_after ''A'' \<and> ''B'' \<notin> users_of shared_after ''A'' ''C''"
  by code_simp

text \<open>
  C4. A present, unprotected declared dependency \<open>d\<close> of the analyzed package \<open>p\<close> that no
  other package of the snapshot declares is in \<open>safe_to_removed[p]\<close>.
\<close>

theorem sole_user_makes_removable:
  assumes "state_ok env st" "analyze_package_dependencies env package st = Inr st'"
    and "p \<in> set (analyzed_packages (fst st'))"
    and "d \<in> declared env p" "pkg_present env d" "d \<notin> WHITELIST"
    and "only_declared_by env p d"
  shows "d \<in> safe_of (fst st') p"
proof -
  have ok: "state_ok env st'" by (rule state_ok_analyze [OF assms(1,2)])
  have v: "valid_requirement env p d" using assms(4,5,6) by (simp add: valid_requirement_def)
  have "\<forall>q. \<not> needed_by env (target (fst st')) p d q"
    using assms(7) by (auto simp: needed_by_def declared_iff only_declared_by_def)
  with state_ok_analyzedD [OF ok assms(3,4)] v show ?thesis by blast
qed

theorem sole_user_makes_removable_witness:
  "state_ok index_chain (new_DependencyData ''A'', [])
   \<and> analyze_package_dependencies index_chain ''A'' (new_DependencyData ''A'', [])
       = Inr (chain_after, [])
   \<and> ''A'' \<in> set (analyzed_packages chain_after)
   \<and> ''B'' \<in> declared index_chain ''A'' \<and> pkg_present index_chain ''B''
   \<and> ''B'' \<notin> WHITELIST \<and> only_declared_by index_chain ''A'' ''B''
   \<and> ''B'' \<in> safe_of chain_after ''A''"
proof -
  have a: "state_ok index_chain (new_DependencyData ''A'', [])"
    by (rule state_ok_new [OF aliases_ok_empty])
  have b: "analyze_package_dependencies index_chain ''A'' (new_DependencyData ''A'', [])
       = Inr (chain_after, [])" by code_simp
  have c: "''A'' \<in> set (analyzed_packages (fst (chain_after, [])))"
    by (simp add: chain_after_def)
  have d: "''B'' \<in> declared index_chain ''A''" by code_simp
  have e: "pkg_present index_chain ''B''" by code_simp
  have f: "''B'' \<notin> WHITELIST" by (simp add: WHITELIST_def)
  have g: "only_declared_by index_chain ''A'' ''B''" by code_simp
  from sole_user_makes_removable [OF a b c d e f g] a b c d e f g show ?thesis by simp
qed

section \<open>The run\<close>

text \<open>
  What \<open>analyze_recursively\<close> returns is decided by line 298 alone: when the analysis of the
  target completes, the result is \<open>False\<close> exactly when \<open>safe_to_removed.get(target, set())\<close>,
  a lookup under the target name as it was given, is empty; then the state is the one that
  this first analysis left, and \<open>_main\<close> runs no pip command.
\<close>

lemma false_iff_lookup_empty:
  assumes "analyze_package_dependencies env (target (fst st)) st = Inr st1"
  shows "((\<exists>st'. analyze_recursively env st = Inr (False, st'))
            \<longleftrightarrow> dict_get (target (fst st)) [] (safe_to_removed (fst st1)) = [])
       \<and> (dict_get (target (fst st)) [] (safe_to_removed (fst st1)) = [] \<longrightarrow>
            analyze_recursively env st = Inr (False, st1)
            \<and> cli_main env yes quiet answer st = Inr (None, st1))"
  using assms
  by (cases st1) (auto simp: analyze_recursively_def cli_main_def Let_def
        split: sum.splits prod.splits)

lemma false_iff_lookup_empty_example:
  "analyze_package_dependencies index_needed (target (fst (new_DependencyData ''A'', [])))
     (new_DependencyData ''A'', []) = Inr (needed_final, [])
   \<and> dict_get ''A'' [] (safe_to_removed needed_final) = []
   \<and> analyze_recursively index_needed (new_DependencyData ''A'', []) = Inr (False, needed_final, [])
   \<and> cli_main index_needed True False False (new_DependencyData ''A'', [])
       = Inr (None, needed_final, [])"
proof -
  have t: "target (fst (new_DependencyData ''A'', [])) = ''A''"
    by (simp add: new_DependencyData_def)
  have a: "analyze_package_dependencies index_needed (target (fst (new_DependencyData ''A'', [])))
     (new_DependencyData ''A'', []) = Inr (needed_final, [])"
    unfolding t by code_simp
  have b: "dict_get ''A'' [] (safe_to_removed needed_final) = []"
    by (simp add: needed_final_def dict_get_def)
  from false_iff_lookup_empty [OF a, of True False False] a b t
  show ?thesis by simp
qed

text \<open>
  C5. The result is meant to be \<open>False\<close> exactly when nothing was found safe to remove for the
  target. For a target given by an alias it is \<open>False\<close> although something was found: the
  distribution \<open>foo-bar\<close> requires \<open>x\<close> and is also found under the name \<open>Foo_Bar\<close>. The
  constructor accepts \<open>Foo_Bar\<close>; the analysis turns the name into \<open>foo-bar\<close> (line 235) and
  files \<open>x\<close> as safe to remove under \<open>foo-bar\<close> (line 283); line 298 looks under \<open>Foo_Bar\<close>,
  finds nothing, and the run returns \<open>False\<close> and calls no pip. Given the name \<open>foo-bar\<close>, the
  run on the same index returns \<open>True\<close> and uninstalls \<open>x\<close> and \<open>foo-bar\<close>.
\<close>

theorem alias_target_returns_false:
  "resolver_init index_alias [] ''Foo_Bar''
     = Inr (new_DependencyData ''Foo_Bar'', [(''Foo_Bar'', ''foo-bar'')])
   \<and> analyze_package_dependencies index_alias ''Foo_Bar''
         (new_DependencyData ''Foo_Bar'', [(''Foo_Bar'', ''foo-bar'')])
       = Inr (alias_final, [(''Foo_Bar'', ''foo-bar'')])
   \<and> dict_get ''foo-bar'' [] (safe_to_removed alias_final) = [''x'']
   \<and> analyze_recursively index_alias
         (new_DependencyData ''Foo_Bar'', [(''Foo_Bar'', ''foo-bar'')])
       = Inr (False, alias_final, [(''Foo_Bar'', ''foo-bar'')])
   \<and> run_target index_alias True False False [] ''Foo_Bar''
       = Inr (None, alias_final, [(''Foo_Bar'', ''foo-bar'')])
   \<and> run_target index_alias True False False [] ''foo-bar''
       = Inr (Some [''uninstall'', ''--yes'', ''x'', ''foo-bar''], canonical_final, [])"
  by code_simp

section \<open>The corrective pass\<close>

lemma remove_listed_subset:
  "remove_listed i safe trb = Inr trb' \<Longrightarrow> set trb' \<subseteq> set trb"
  by (induction i safe trb rule: remove_listed.induct) (auto split: if_splits)

lemma remove_listed_removes:
  "remove_listed i safe trb = Inr trb' \<Longrightarrow> (m, deps) \<in> set safe \<Longrightarrow> i \<in> set deps
   \<Longrightarrow> i \<notin> set trb'"
proof (induction i safe trb rule: remove_listed.induct)
  case (2 i mdep mdep_deps rest trb)
  show ?case
  proof (cases "i \<in> set mdep_deps")
    case True
    with "2.prems"(1) have r: "i \<in> set trb" "remove_listed i rest (removeAll i trb) = Inr trb'"
      by (auto split: if_splits)
    from remove_listed_subset [OF r(2)] show ?thesis by auto
  next
    case False
    with "2.prems" have "remove_listed i rest trb = Inr trb'" "(m, deps) \<in> set rest" by auto
    with "2.IH"(2) False "2.prems"(3) show ?thesis by blast
  qed
qed simp

lemma corrective_pass_subset:
  "corrective_pass js safe trb = Inr trb' \<Longrightarrow> set trb' \<subseteq> set trb"
proof (induction js arbitrary: trb)
  case (Cons j js)
  then show ?case by (auto split: sum.splits dest!: remove_listed_subset)
qed simp

lemma corrective_pass_removes:
  "corrective_pass js safe trb = Inr trb' \<Longrightarrow> i \<in> set js \<Longrightarrow> (m, deps) \<in> set safe
   \<Longrightarrow> i \<in> set deps \<Longrightarrow> i \<notin> set trb'"
proof (induction js arbitrary: trb)
  case (Cons j js)
  from Cons.prems(1) obtain t1 where t1: "remove_listed j safe trb = Inr t1"
    "corrective_pass js safe t1 = Inr trb'" by (auto split: sum.splits)
  show ?case
  proof (cases "i = j")
    case True
    from remove_listed_removes [OF t1(1) Cons.prems(3)] Cons.prems(4) True have "i \<notin> set t1" by simp
    with corrective_pass_subset [OF t1(2)] show ?thesis by auto
  next
    case False
    with Cons.prems(2) have "i \<in> set js" by simp
    from Cons.IH [OF t1(2) this Cons.prems(3,4)] show ?thesis .
  qed
qed simp

text \<open>
  C6. When the corrective pass completes, a package that was in \<open>this_requires_by\<close> before
  the pass and is listed in some value of \<open>safe_to_removed\<close> is not in \<open>this_requires_by\<close>
  after it.
\<close>

theorem corrective_drops_removable:
  assumes "corrective dd = Inr dd'" "i \<in> set (this_requires_by dd)"
      "(m, deps) \<in> set (safe_to_removed dd)" "i \<in> set deps"
  shows "i \<notin> set (this_requires_by dd')"
proof -
  from assms(1) obtain trb where
    t: "corrective_pass (this_requires_by dd) (safe_to_removed dd) (this_requires_by dd) = Inr trb"
    and d: "dd' = dd\<lparr>this_requires_by := trb\<rparr>"
    by (auto simp: corrective_def split: sum.splits)
  from corrective_pass_removes [OF t assms(2,3,4)] d show ?thesis by simp
qed

theorem corrective_drops_removable_witness:
  "corrective mutual_before_pass = Inr mutual_final
   \<and> ''B'' \<in> set (this_requires_by mutual_before_pass)
   \<and> (''A'', [''B'']) \<in> set (safe_to_removed mutual_before_pass)
   \<and> ''B'' \<in> set [''B'']
   \<and> ''B'' \<notin> set (this_requires_by mutual_final)"
proof -
  have a: "corrective mutual_before_pass = Inr mutual_final"
    by (simp add: corrective_def mutual_before_pass_def mutual_final_def)
  have b: "''B'' \<in> set (this_requires_by mutual_before_pass)"
    by (simp add: mutual_before_pass_def)
  have c: "(''A'', [''B'']) \<in> set (safe_to_removed mutual_before_pass)"
    by (simp add: mutual_before_pass_def)
  have d: "''B'' \<in> set [''B'']" by simp
  from corrective_drops_removable [OF a b c d] a b c d show ?thesis by simp
qed

text \<open>
  C9. With A requiring B and C, B requiring C and C requiring A, and target A, package C is
  in \<open>this_requires_by\<close> and is safe to remove both for A and for B. The corrective pass
  removes C from \<open>this_requires_by\<close> at the first entry and calls \<open>remove\<close> again at the
  second: the run ends with \<open>KeyError\<close>.
\<close>

theorem corrective_pass_raises_on_triangle:
  "analyze_recursively index_triangle (new_DependencyData ''A'', []) = Inl (KeyError ''C'')"
  by code_simp

section \<open>The uninstall command\<close>

lemma set_fold_values:
  "set (fold (\<lambda>(m, deps) acc. fold set_add deps acc) safe acc)
     = (\<Union>(m, deps) \<in> set safe. set deps) \<union> set acc"
  by (induction safe arbitrary: acc) (auto simp: set_fold_set_add)

text \<open>
  C10 (as amended). When a resolution completes and the removal goes ahead, the names handed
  to \<open>pip uninstall\<close> are those of all values of \<open>safe_to_removed\<close> together with the
  target; the target is among them whether or not a value of \<open>safe_to_removed\<close> lists it.
\<close>

theorem confirmed_removal_uninstalls_safe_and_target:
  assumes "cli_main env yes quiet answer st = Inr (Some args, dd', aliases')"
  shows "args = [''uninstall'', ''--yes''] @ (if quiet then [''--quiet''] else []) @ uninstalled dd'
       \<and> set (uninstalled dd')
           = (\<Union>(m, deps) \<in> set (safe_to_removed dd'). set deps) \<union> {target dd'}
       \<and> target dd' \<in> set (uninstalled dd')"
proof -
  from assms have "args = remove_packages quiet dd'"
    by (auto simp: cli_main_def split: sum.splits prod.splits if_splits)
  then show ?thesis by (simp add: uninstalled_def set_fold_values remove_packages_def)
qed

theorem confirmed_removal_uninstalls_safe_and_target_witness:
  "cli_main index_mutual True False False (new_DependencyData ''A'', [])
     = Inr (Some [''uninstall'', ''--yes'', ''B'', ''A''], mutual_final, [])
   \<and> uninstalled mutual_final = [''B'', ''A'']
   \<and> set (uninstalled mutual_final)
       = (\<Union>(m, deps) \<in> set (safe_to_removed mutual_final). set deps) \<union> {target mutual_final}
   \<and> target mutual_final \<in> set (uninstalled mutual_final)"
proof -
  have a: "cli_main index_mutual True False False (new_DependencyData ''A'', [])
     = Inr (Some [''uninstall'', ''--yes'', ''B'', ''A''], mutual_final, [])"
    by code_simp
  have b: "uninstalled mutual_final = [''B'', ''A'']" by code_simp
  from confirmed_removal_uninstalls_safe_and_target [OF a] a b show ?thesis by simp
qed

text \<open>
  C10 as stated fails where it says that no value of \<open>safe_to_removed\<close> lists the target:
  when A and B require each other and A is the target, the run completes, pip is called, and
  the target A is listed as safe to remove for B.
\<close>

theorem target_listed_as_safe_to_remove:
  "cli_main index_mutual True False False (new_DependencyData ''A'', [])
     = Inr (Some [''uninstall'', ''--yes'', ''B'', ''A''], mutual_final, [])
   \<and> (''B'', [''A'']) \<in> set (safe_to_removed mutual_final)
   \<and> target mutual_final \<in> set [''A'']"
  by code_simp

end
